theory Spec2Isabelle
  imports Main "HOL-Library.Product_Lexorder"
begin

section \<open>JavaScript values\<close>

text \<open>
  A JavaScript string is a sequence of UTF-16 code units; a code unit is modelled by its
  number. Every literal of the source is written as the list of its code units.
  \<open>Date.now()\<close> is an input of the model: each recording takes the value it read.
  Numbers are the integers the service handles (scores, epoch milliseconds, limits);
  scores stay far below \<open>2^53\<close>, so no rounding is modelled.
\<close>

type_synonym jsstring = "nat list"

datatype exn = TypeError | SqliteError

record HotSearchItem =
  item_term :: jsstring
  item_score :: int
  lastSearched :: int
  createdAt :: int

record HotSearchStats =
  total :: int
  topTerms :: "HotSearchItem list"

record reply =
  success :: bool
  message :: jsstring

subsection \<open>\<open>String.prototype.trim\<close>\<close>

text \<open>The white space and line terminator code units that \<open>trim\<close> removes.\<close>

definition is_white_space :: "nat \<Rightarrow> bool" where
  "is_white_space c \<longleftrightarrow>
     c \<in> {9, 10, 11, 12, 13, 32, 160, 5760, 8232, 8233, 8239, 8287, 12288, 65279}
     \<or> (8192 \<le> c \<and> c \<le> 8202)"

definition trim :: "jsstring \<Rightarrow> jsstring" where
  "trim s = rev (dropWhile is_white_space (rev (dropWhile is_white_space s)))"

subsection \<open>The regular expressions of \<open>isForbidden\<close>\<close>

text \<open>
  Both patterns are alternations of literals with the flag \<open>i\<close> and without the flags
  \<open>g\<close>, \<open>y\<close> and \<open>u\<close>: \<open>test\<close> is stateless and succeeds when some alternative
  matches at some index, code units being compared after canonicalisation. For the code
  units of these literals canonicalisation is: an ASCII lower-case letter becomes its
  upper-case letter, every other code unit of the literals is kept; a code unit from 128
  on never canonicalises to an ASCII letter, and no other code unit canonicalises to one
  of the ideographs.
\<close>

definition canonicalize :: "nat \<Rightarrow> nat" where
  "canonicalize c = (if 97 \<le> c \<and> c \<le> 122 then c - 32 else c)"

fun matches_at :: "jsstring \<Rightarrow> jsstring \<Rightarrow> bool" where
  "matches_at [] s = True"
| "matches_at (p # ps) [] = False"
| "matches_at (p # ps) (c # cs) = (canonicalize p = canonicalize c \<and> matches_at ps cs)"

fun literal_test :: "jsstring \<Rightarrow> jsstring \<Rightarrow> bool" where
  "literal_test p [] = matches_at p []"
| "literal_test p (c # cs) = (matches_at p (c # cs) \<or> literal_test p cs)"

definition regex_test :: "jsstring list \<Rightarrow> jsstring \<Rightarrow> bool" where
  "regex_test alternatives s = list_ex (\<lambda>p. literal_test p s) alternatives"

text \<open>
  The first pattern lists five two-ideograph words (politics, violence, pornography,
  gambling, drugs), the second is \<open>/fuck|shit|bitch/i\<close>.
\<close>

definition forbiddenPatterns :: "jsstring list list" where
  "forbiddenPatterns =
     [ [[25919, 27835], [26292, 21147], [33394, 24773], [36172, 21338], [27602, 21697]],
       [[102, 117, 99, 107], [115, 104, 105, 116], [98, 105, 116, 99, 104]] ]"

definition isForbidden :: "jsstring \<Rightarrow> bool" where
  "isForbidden term = list_ex (\<lambda>pattern. regex_test pattern term) forbiddenPatterns"

section \<open>The database handle\<close>

text \<open>
  The field \<open>db\<close> of the service is untyped: either a better-sqlite3 database or the
  object built by \<open>initMemoryFallback\<close>. The service only calls \<open>prepare\<close> with one of
  seven SQL texts and then \<open>run\<close>, \<open>get\<close> or \<open>all\<close> on the statement. A handle is
  therefore a function from the SQL text to a statement (or an exception), a statement
  holds the methods it has (calling an absent one is a \<open>TypeError\<close>), and a method
  returns a value or throws. \<open>run\<close> returns \<open>None\<close> for \<open>undefined\<close>.
\<close>

datatype sql = UPSERT | SELECT_RANKED | CLEANUP | DELETE_ALL | DELETE_TERM | COUNT_ALL | SELECT_TOP10

text \<open>
  The seven SQL texts of the source, in the order of the constructors:
  \<^item> \<^verbatim>\<open>INSERT INTO hot_searches (term, score, last_searched, created_at) VALUES (?, 1, ?, ?)
    ON CONFLICT(term) DO UPDATE SET score = score + 1, last_searched = ?\<close> in
    \<open>recordSearch\<close>;
  \<^item> \<^verbatim>\<open>SELECT term, score, last_searched as lastSearched, created_at as createdAt
    FROM hot_searches ORDER BY score DESC, last_searched DESC LIMIT ?\<close> in
    \<open>getHotSearches\<close>;
  \<^item> \<^verbatim>\<open>DELETE FROM hot_searches WHERE id NOT IN (SELECT id FROM hot_searches
    ORDER BY score DESC, last_searched DESC LIMIT ?)\<close> in \<open>cleanupOldEntries\<close>;
  \<^item> \<^verbatim>\<open>DELETE FROM hot_searches\<close> in \<open>clearHotSearches\<close>;
  \<^item> \<^verbatim>\<open>DELETE FROM hot_searches WHERE term = ?\<close> in \<open>deleteHotSearch\<close>;
  \<^item> the count of all rows under the name \<open>total\<close>, in \<open>getStats\<close>;
  \<^item> the second text again with \<^verbatim>\<open>LIMIT 10\<close>, in \<open>getStats\<close>.

  A parameter bound to a statement is a string or a number.
\<close>

datatype param = PStr jsstring | PNum int

record run_result =
  changes :: nat

datatype jsrow = CountRow int | ItemRow HotSearchItem

record 's statement =
  run :: "(param list \<Rightarrow> 's \<Rightarrow> exn + (run_result option \<times> 's)) option"
  get :: "(param list \<Rightarrow> 's \<Rightarrow> exn + jsrow option) option"
  all :: "(param list \<Rightarrow> 's \<Rightarrow> exn + HotSearchItem list) option"

type_synonym 's database = "sql \<Rightarrow> exn + 's statement"

definition call_run ::
  "'s database \<Rightarrow> sql \<Rightarrow> param list \<Rightarrow> 's \<Rightarrow> exn + (run_result option \<times> 's)" where
  "call_run db q args s =
     (case db q of
        Inl e \<Rightarrow> Inl e
      | Inr stmt \<Rightarrow> (case run stmt of None \<Rightarrow> Inl TypeError | Some f \<Rightarrow> f args s))"

definition call_get :: "'s database \<Rightarrow> sql \<Rightarrow> param list \<Rightarrow> 's \<Rightarrow> exn + jsrow option" where
  "call_get db q args s =
     (case db q of
        Inl e \<Rightarrow> Inl e
      | Inr stmt \<Rightarrow> (case get stmt of None \<Rightarrow> Inl TypeError | Some f \<Rightarrow> f args s))"

definition call_all ::
  "'s database \<Rightarrow> sql \<Rightarrow> param list \<Rightarrow> 's \<Rightarrow> exn + HotSearchItem list" where
  "call_all db q args s =
     (case db q of
        Inl e \<Rightarrow> Inl e
      | Inr stmt \<Rightarrow> (case all stmt of None \<Rightarrow> Inl TypeError | Some f \<Rightarrow> f args s))"

subsection \<open>The SQLite table \<open>hot_searches\<close>\<close>

text \<open>
  The table is the list of its rows in rowid order, with the counter that
  \<open>AUTOINCREMENT\<close> keeps. The statements have the meaning SQLite gives them:
  \<^item> the upsert inserts \<open>(term, 1, ?2, ?3)\<close> under a fresh id, or, when the unique
    \<open>term\<close> is taken, adds one to the score of that row and sets its
    \<open>last_searched\<close> to \<open>?4\<close>; either way it draws an id from the counter;
  \<^item> \<open>ORDER BY score DESC, last_searched DESC\<close> sorts on these two columns only; rows
    equal on both come out in scan (rowid) order;
  \<^item> \<open>LIMIT n\<close> keeps the first \<open>n\<close> rows and, for a negative \<open>n\<close>, all of them; a
    number that does not fit a signed 64-bit integer, and the number \<open>-2^63\<close>, is
    refused with the error \<open>datatype mismatch\<close>;
  \<^item> a string is bound as UTF-8 text, in which every surrogate code unit that is not
    part of a pair is replaced by U+FFFD; the table holds, compares and returns that
    text.
\<close>

definition is_high_surrogate :: "nat \<Rightarrow> bool" where
  "is_high_surrogate c \<longleftrightarrow> 55296 \<le> c \<and> c \<le> 56319"

definition is_low_surrogate :: "nat \<Rightarrow> bool" where
  "is_low_surrogate c \<longleftrightarrow> 56320 \<le> c \<and> c \<le> 57343"

fun bind_text :: "jsstring \<Rightarrow> jsstring" where
  "bind_text [] = []"
| "bind_text [c] = (if is_high_surrogate c \<or> is_low_surrogate c then [65533] else [c])"
| "bind_text (c # d # cs) =
     (if is_high_surrogate c \<and> is_low_surrogate d then c # d # bind_text cs
      else if is_high_surrogate c \<or> is_low_surrogate c then 65533 # bind_text (d # cs)
      else c # bind_text (d # cs))"

definition limit_ok :: "int \<Rightarrow> bool" where
  "limit_ok n \<longleftrightarrow> - 9223372036854775808 < n"

record row =
  row_id :: nat
  row_term :: jsstring
  row_score :: int
  last_searched :: int
  created_at :: int

record table =
  rows :: "row list"
  sqlite_sequence :: nat

definition empty_table :: table where
  "empty_table = \<lparr>rows = [], sqlite_sequence = 0\<rparr>"

definition rank_key :: "row \<Rightarrow> int \<times> int" where
  "rank_key r = (- row_score r, - last_searched r)"

definition order_by_rank :: "row list \<Rightarrow> row list" where
  "order_by_rank rs = sort_key rank_key rs"

definition sql_limit :: "int \<Rightarrow> 'a list \<Rightarrow> 'a list" where
  "sql_limit n xs = (if n < 0 then xs else take (nat n) xs)"

definition to_item :: "row \<Rightarrow> HotSearchItem" where
  "to_item r = \<lparr>item_term = row_term r, item_score = row_score r,
                lastSearched = last_searched r, createdAt = created_at r\<rparr>"

definition next_id :: "table \<Rightarrow> nat" where
  "next_id tb = Suc (fold max (map row_id (rows tb)) (sqlite_sequence tb))"

definition sql_upsert :: "jsstring \<Rightarrow> int \<Rightarrow> int \<Rightarrow> int \<Rightarrow> table \<Rightarrow> table" where
  "sql_upsert t ls ca ls' tb =
     (if list_ex (\<lambda>r. row_term r = t) (rows tb)
      then tb\<lparr>rows := map (\<lambda>r. if row_term r = t
                                then r\<lparr>row_score := row_score r + 1, last_searched := ls'\<rparr>
                                else r) (rows tb),
              sqlite_sequence := next_id tb\<rparr>
      else tb\<lparr>rows := rows tb @
                  [\<lparr>row_id = next_id tb, row_term = t, row_score = 1,
                    last_searched = ls, created_at = ca\<rparr>],
              sqlite_sequence := next_id tb\<rparr>)"

definition sql_cleanup :: "int \<Rightarrow> table \<Rightarrow> table" where
  "sql_cleanup n tb =
     tb\<lparr>rows := filter (\<lambda>r. row_id r \<in> set (map row_id (sql_limit n (order_by_rank (rows tb)))))
                  (rows tb)\<rparr>"

definition sql_delete_term :: "jsstring \<Rightarrow> table \<Rightarrow> table" where
  "sql_delete_term t tb = tb\<lparr>rows := filter (\<lambda>r. row_term r \<noteq> t) (rows tb)\<rparr>"

definition removed :: "table \<Rightarrow> table \<Rightarrow> run_result option" where
  "removed tb tb' = Some \<lparr>changes = length (rows tb) - length (rows tb')\<rparr>"

fun sqlite_run :: "sql \<Rightarrow> param list \<Rightarrow> table \<Rightarrow> exn + (run_result option \<times> table)" where
  "sqlite_run UPSERT [PStr t, PNum a, PNum b, PNum c] tb =
     Inr (Some \<lparr>changes = 1\<rparr>, sql_upsert (bind_text t) a b c tb)"
| "sqlite_run CLEANUP [PNum n] tb =
     (if limit_ok n then Inr (removed tb (sql_cleanup n tb), sql_cleanup n tb)
      else Inl SqliteError)"
| "sqlite_run DELETE_ALL [] tb = Inr (removed tb (tb\<lparr>rows := []\<rparr>), tb\<lparr>rows := []\<rparr>)"
| "sqlite_run DELETE_TERM [PStr t] tb =
     Inr (removed tb (sql_delete_term (bind_text t) tb), sql_delete_term (bind_text t) tb)"
| "sqlite_run q args tb = Inl SqliteError"

fun sqlite_get :: "sql \<Rightarrow> param list \<Rightarrow> table \<Rightarrow> exn + jsrow option" where
  "sqlite_get COUNT_ALL [] tb = Inr (Some (CountRow (int (length (rows tb)))))"
| "sqlite_get q args tb = Inl SqliteError"

fun sqlite_all :: "sql \<Rightarrow> param list \<Rightarrow> table \<Rightarrow> exn + HotSearchItem list" where
  "sqlite_all SELECT_RANKED [PNum n] tb =
     (if limit_ok n then Inr (map to_item (sql_limit n (order_by_rank (rows tb))))
      else Inl SqliteError)"
| "sqlite_all SELECT_TOP10 [] tb = Inr (map to_item (sql_limit 10 (order_by_rank (rows tb))))"
| "sqlite_all q args tb = Inl SqliteError"

definition sqlite :: "table database" where
  "sqlite q = Inr \<lparr>run = Some (sqlite_run q), get = Some (sqlite_get q),
                  all = Some (sqlite_all q)\<rparr>"

subsection \<open>The object of \<open>initMemoryFallback\<close>\<close>

text \<open>
  The fallback object has the properties \<open>memoryStore\<close>, \<open>prepare\<close>, \<open>exec\<close> and
  \<open>prepareQuery\<close>. Its \<open>prepare\<close> is a method, called by the service as
  \<open>this.db.prepare(...)\<close>, so inside it \<open>this\<close> is the fallback object itself, and the
  arrow functions \<open>run\<close> and \<open>get\<close> it returns inherit that \<open>this\<close>. Both start by
  evaluating \<open>this.db.memoryStore\<close>; the fallback object has no property \<open>db\<close>, so
  \<open>this.db\<close> is \<open>undefined\<close> and the property access throws a \<open>TypeError\<close> before
  the map is touched. The statement has no method \<open>all\<close>; \<open>prepareQuery\<close> is never
  called by the service. The map of the model keeps insertion order, as a JavaScript
  \<open>Map\<close> does.
\<close>

record memdb =
  memoryStore :: "(jsstring \<times> HotSearchItem) list"

definition empty_memdb :: memdb where
  "empty_memdb = \<lparr>memoryStore = []\<rparr>"

definition memory_fallback :: "memdb database" where
  "memory_fallback q =
     Inr \<lparr>run = Some (\<lambda>args d. Inl TypeError),
          get = Some (\<lambda>args d. Inl TypeError),
          all = None\<rparr>"

section \<open>The service \<open>HotSearchSQLiteService\<close>\<close>

text \<open>
  Every method takes the handle and the state behind it and returns its result with the
  new state. A \<open>catch\<close> clause of the source is the \<open>Inl\<close> branch of the call it
  guards; a statement that threw leaves the state as it was. \<open>recordSearch\<close> returns
  \<open>Inr ()\<close> when its promise resolves and would return \<open>Inl\<close> if it rejected.
\<close>

definition MAX_ENTRIES :: int where
  "MAX_ENTRIES = 50"

record config =
  HOT_SEARCH_PASSWORD :: "jsstring option"

text \<open>\<open>process.env.HOT_SEARCH_PASSWORD || 'admin123'\<close>: an empty string is falsy.\<close>

definition correctPassword :: "config \<Rightarrow> jsstring" where
  "correctPassword cfg =
     (case HOT_SEARCH_PASSWORD cfg of
        None \<Rightarrow> [97, 100, 109, 105, 110, 49, 50, 51]
      | Some p \<Rightarrow> if p = [] then [97, 100, 109, 105, 110, 49, 50, 51] else p)"

text \<open>
  The messages of the replies, in the order of the source: wrong password, records
  cleared, clearing failed, term deleted (the term between two quotation marks), no such
  term, deleting failed.
\<close>

definition msg_wrong_password :: jsstring where
  "msg_wrong_password = [23494, 30721, 38169, 35823]"

definition msg_cleared :: jsstring where
  "msg_cleared = [28909, 25628, 35760, 24405, 24050, 28165, 38500]"

definition msg_clear_failed :: jsstring where
  "msg_clear_failed = [28165, 38500, 22833, 36133]"

definition msg_deleted :: "jsstring \<Rightarrow> jsstring" where
  "msg_deleted term = [28909, 25628, 35789, 32, 34] @ term @ [34, 32, 24050, 21024, 38500]"

definition msg_not_found :: jsstring where
  "msg_not_found = [28909, 25628, 35789, 19981, 23384, 22312]"

definition msg_delete_failed :: jsstring where
  "msg_delete_failed = [21024, 38500, 22833, 36133]"

text \<open>
  \<open>cleanupOldEntries\<close> reads \<open>result.changes\<close> only to log; when \<open>result\<close> is
  \<open>undefined\<close> that read throws inside the same \<open>try\<close>, after the statement ran.
\<close>

definition cleanupOldEntries :: "'s database \<Rightarrow> 's \<Rightarrow> 's" where
  "cleanupOldEntries db s =
     (case call_run db CLEANUP [PNum MAX_ENTRIES] s of
        Inl e \<Rightarrow> s
      | Inr (result, s') \<Rightarrow> (case result of None \<Rightarrow> s' | Some r \<Rightarrow> s'))"

definition recordSearch :: "'s database \<Rightarrow> jsstring \<Rightarrow> int \<Rightarrow> 's \<Rightarrow> (exn + unit) \<times> 's" where
  "recordSearch db term now s =
     (if term = [] \<or> length (trim term) = 0 then (Inr (), s)
      else if isForbidden term then (Inr (), s)
      else (case call_run db UPSERT [PStr term, PNum now, PNum now, PNum now] s of
              Inl e \<Rightarrow> (Inr (), s)
            | Inr (result, s') \<Rightarrow> (Inr (), cleanupOldEntries db s')))"

text \<open>The parameter \<open>limit\<close> defaults to 30 when the caller passes none.\<close>

definition getHotSearches :: "'s database \<Rightarrow> int option \<Rightarrow> 's \<Rightarrow> HotSearchItem list" where
  "getHotSearches db limit s =
     (case call_all db SELECT_RANKED
             [PNum (min (case limit of None \<Rightarrow> 30 | Some n \<Rightarrow> n) MAX_ENTRIES)] s of
        Inl e \<Rightarrow> []
      | Inr rs \<Rightarrow>
          map (\<lambda>row. \<lparr>item_term = item_term row, item_score = item_score row,
                       lastSearched = lastSearched row, createdAt = createdAt row\<rparr>) rs)"

definition clearHotSearches :: "config \<Rightarrow> 's database \<Rightarrow> jsstring \<Rightarrow> 's \<Rightarrow> reply \<times> 's" where
  "clearHotSearches cfg db password s =
     (if password \<noteq> correctPassword cfg
      then (\<lparr>success = False, message = msg_wrong_password\<rparr>, s)
      else (case call_run db DELETE_ALL [] s of
              Inl e \<Rightarrow> (\<lparr>success = False, message = msg_clear_failed\<rparr>, s)
            | Inr (result, s') \<Rightarrow> (\<lparr>success = True, message = msg_cleared\<rparr>, s')))"

definition deleteHotSearch ::
  "config \<Rightarrow> 's database \<Rightarrow> jsstring \<Rightarrow> jsstring \<Rightarrow> 's \<Rightarrow> reply \<times> 's" where
  "deleteHotSearch cfg db term password s =
     (if password \<noteq> correctPassword cfg
      then (\<lparr>success = False, message = msg_wrong_password\<rparr>, s)
      else (case call_run db DELETE_TERM [PStr term] s of
              Inl e \<Rightarrow> (\<lparr>success = False, message = msg_delete_failed\<rparr>, s)
            | Inr (result, s') \<Rightarrow>
                (case result of
                   None \<Rightarrow> (\<lparr>success = False, message = msg_delete_failed\<rparr>, s')
                 | Some r \<Rightarrow>
                     if changes r > 0
                     then (\<lparr>success = True, message = msg_deleted term\<rparr>, s')
                     else (\<lparr>success = False, message = msg_not_found\<rparr>, s'))))"

text \<open>
  \<open>countResult?.total || 0\<close>: no row, a row without the property \<open>total\<close> and the
  number 0 all give 0.
\<close>

definition row_total :: "jsrow \<Rightarrow> int option" where
  "row_total r = (case r of CountRow n \<Rightarrow> Some n | ItemRow i \<Rightarrow> None)"

definition getStats :: "'s database \<Rightarrow> 's \<Rightarrow> HotSearchStats" where
  "getStats db s =
     (case call_get db COUNT_ALL [] s of
        Inl e \<Rightarrow> \<lparr>total = 0, topTerms = []\<rparr>
      | Inr countResult \<Rightarrow>
          (let total = (case countResult of
                          None \<Rightarrow> 0
                        | Some r \<Rightarrow> (case row_total r of None \<Rightarrow> 0 | Some n \<Rightarrow> n))
           in case call_all db SELECT_TOP10 [] s of
                Inl e \<Rightarrow> \<lparr>total = 0, topTerms = []\<rparr>
              | Inr rs \<Rightarrow>
                  \<lparr>total = total,
                   topTerms =
                     map (\<lambda>row. \<lparr>item_term = item_term row, item_score = item_score row,
                                  lastSearched = lastSearched row, createdAt = createdAt row\<rparr>)
                       rs\<rparr>))"

subsection \<open>Sequences of calls\<close>

datatype op =
    Record jsstring int
  | List "int option"
  | Delete jsstring jsstring
  | ClearAll jsstring
  | Stats

fun exec_op :: "config \<Rightarrow> 's database \<Rightarrow> op \<Rightarrow> 's \<Rightarrow> 's" where
  "exec_op cfg db (Record term now) s = snd (recordSearch db term now s)"
| "exec_op cfg db (List limit) s = s"
| "exec_op cfg db (Delete term password) s = snd (deleteHotSearch cfg db term password s)"
| "exec_op cfg db (ClearAll password) s = snd (clearHotSearches cfg db password s)"
| "exec_op cfg db Stats s = s"

definition run_ops :: "config \<Rightarrow> 's database \<Rightarrow> op list \<Rightarrow> 's \<Rightarrow> 's" where
  "run_ops cfg db ops s = fold (exec_op cfg db) ops s"

section \<open>Vocabulary of the properties\<close>

text \<open>
  The ranking the three \<open>ORDER BY\<close> clauses share, as a relation: a higher score first,
  then a later \<open>last_searched\<close>. Two rows equal on both stand in this relation both
  ways.
\<close>

definition outranks_or_ties :: "row \<Rightarrow> row \<Rightarrow> bool" where
  "outranks_or_ties a b \<longleftrightarrow>
     row_score a > row_score b
     \<or> (row_score a = row_score b \<and> last_searched a \<ge> last_searched b)"

definition item_outranks_or_ties :: "HotSearchItem \<Rightarrow> HotSearchItem \<Rightarrow> bool" where
  "item_outranks_or_ties a b \<longleftrightarrow>
     item_score a > item_score b
     \<or> (item_score a = item_score b \<and> lastSearched a \<ge> lastSearched b)"

text \<open>The constraints of the schema: \<open>id\<close> is the primary key, \<open>term\<close> is unique.\<close>

definition table_ok :: "table \<Rightarrow> bool" where
  "table_ok tb \<longleftrightarrow> distinct (map row_id (rows tb)) \<and> distinct (map row_term (rows tb))"

definition lookup_term :: "jsstring \<Rightarrow> table \<Rightarrow> row option" where
  "lookup_term t tb = find (\<lambda>r. row_term r = t) (rows tb)"

definition score_of :: "jsstring \<Rightarrow> table \<Rightarrow> int" where
  "score_of t tb = (case lookup_term t tb of None \<Rightarrow> 0 | Some r \<Rightarrow> row_score r)"

text \<open>
  A term is accepted when \<open>recordSearch\<close> passes it on to the upsert. The table
  identifies a term with the text it is bound as, so the recordings that count for the
  term \<open>t\<close> are the accepted recordings of the terms bound as the same text; the
  function gives their times.
\<close>

definition accepted :: "jsstring \<Rightarrow> bool" where
  "accepted t \<longleftrightarrow> t \<noteq> [] \<and> trim t \<noteq> [] \<and> \<not> isForbidden t"

fun recordings :: "jsstring \<Rightarrow> op list \<Rightarrow> int list" where
  "recordings t [] = []"
| "recordings t (Record u now # ops) =
     (if accepted u \<and> bind_text u = bind_text t then now # recordings t ops
      else recordings t ops)"
| "recordings t (op # ops) = recordings t ops"

text \<open>The table of a recording between its upsert and \<open>cleanupOldEntries\<close>.\<close>

definition upserted :: "jsstring \<Rightarrow> int \<Rightarrow> table \<Rightarrow> table" where
  "upserted u now tb = (if accepted u then sql_upsert (bind_text u) now now now tb else tb)"

text \<open>
  No call of the sequence removes the row of \<open>t\<close>. For a recording: when the row is in
  the table after the upsert, \<open>cleanupOldEntries\<close> does not evict it. For every other
  call: when the row is in the table before the call, it is there after it, which rules
  out a delete or a clear of the row. Whether an upsert creates the row is no part of
  this.
\<close>

fun kept :: "config \<Rightarrow> jsstring \<Rightarrow> op list \<Rightarrow> table \<Rightarrow> bool" where
  "kept cfg t [] tb = True"
| "kept cfg t (Record u now # ops) tb =
     ((lookup_term (bind_text t) (upserted u now tb) \<noteq> None
         \<longrightarrow> lookup_term (bind_text t) (snd (recordSearch sqlite u now tb)) \<noteq> None)
      \<and> kept cfg t ops (snd (recordSearch sqlite u now tb)))"
| "kept cfg t (op # ops) tb =
     ((lookup_term (bind_text t) tb \<noteq> None
         \<longrightarrow> lookup_term (bind_text t) (exec_op cfg sqlite op tb) \<noteq> None)
      \<and> kept cfg t ops (exec_op cfg sqlite op tb))"

subsection \<open>Example stores\<close>

definition no_env :: config where
  "no_env = \<lparr>HOT_SEARCH_PASSWORD = None\<rparr>"

definition one_row :: table where
  "one_row = \<lparr>rows = [\<lparr>row_id = 1, row_term = [97], row_score = 2, last_searched = 9,
                        created_at = 5\<rparr>], sqlite_sequence = 1\<rparr>"

definition tied_table :: table where
  "tied_table =
     \<lparr>rows = [\<lparr>row_id = 1, row_term = [98], row_score = 1, last_searched = 5, created_at = 5\<rparr>,
              \<lparr>row_id = 2, row_term = [97], row_score = 1, last_searched = 5, created_at = 5\<rparr>,
              \<lparr>row_id = 3, row_term = [99], row_score = 2, last_searched = 3, created_at = 3\<rparr>],
      sqlite_sequence = 3\<rparr>"

text \<open>Fifty rows with the scores 1 to 50.\<close>

definition full_table :: table where
  "full_table =
     \<lparr>rows = map (\<lambda>i. \<lparr>row_id = i, row_term = [1000 + i], row_score = int i,
                        last_searched = 0, created_at = 0\<rparr>) [1..<51],
      sqlite_sequence = 50\<rparr>"

definition example_ops :: "op list" where
  "example_ops = [Record [97] 5, Record [98] 6, Record [97] 7, List None,
                  Delete [98] [120], Record [97] 9]"

section \<open>The service on the two handles\<close>

lemmas eval_defs = trim_def is_white_space_def isForbidden_def forbiddenPatterns_def
  regex_test_def canonicalize_def sql_upsert_def sql_cleanup_def sql_delete_term_def
  empty_table_def next_id_def MAX_ENTRIES_def sql_limit_def order_by_rank_def to_item_def
  rank_key_def correctPassword_def no_env_def is_high_surrogate_def is_low_surrogate_def
  limit_ok_def accepted_def upserted_def

lemma call_run_sqlite: "call_run sqlite q args tb = sqlite_run q args tb"
  by (simp add: call_run_def sqlite_def)

lemma call_get_sqlite: "call_get sqlite q args tb = sqlite_get q args tb"
  by (simp add: call_get_def sqlite_def)

lemma call_all_sqlite: "call_all sqlite q args tb = sqlite_all q args tb"
  by (simp add: call_all_def sqlite_def)

lemma call_run_fallback: "call_run memory_fallback q args d = Inl TypeError"
  by (simp add: call_run_def memory_fallback_def)

lemma call_get_fallback: "call_get memory_fallback q args d = Inl TypeError"
  by (simp add: call_get_def memory_fallback_def)

lemma call_all_fallback: "call_all memory_fallback q args d = Inl TypeError"
  by (simp add: call_all_def memory_fallback_def)

lemma limit_ok_max: "limit_ok MAX_ENTRIES"
  by (simp add: limit_ok_def MAX_ENTRIES_def)

lemma limit_ok_min: "limit_ok (min n MAX_ENTRIES) \<longleftrightarrow> limit_ok n"
  by (simp add: limit_ok_def MAX_ENTRIES_def)

lemma recordSearch_sqlite:
  "recordSearch sqlite term now tb =
     (Inr (), if term = [] \<or> trim term = [] \<or> isForbidden term then tb
              else sql_cleanup MAX_ENTRIES (sql_upsert (bind_text term) now now now tb))"
  by (simp add: recordSearch_def cleanupOldEntries_def call_run_sqlite removed_def limit_ok_max)

lemma recordSearch_upserted:
  "snd (recordSearch sqlite u now tb) =
     (if accepted u then sql_cleanup MAX_ENTRIES (upserted u now tb) else tb)"
  by (auto simp add: recordSearch_sqlite accepted_def upserted_def)

lemma getHotSearches_sqlite:
  "getHotSearches sqlite limit tb =
     (if limit_ok (case limit of None \<Rightarrow> 30 | Some n \<Rightarrow> n)
      then map to_item
             (sql_limit (min (case limit of None \<Rightarrow> 30 | Some n \<Rightarrow> n) MAX_ENTRIES)
                (order_by_rank (rows tb)))
      else [])"
  by (simp add: getHotSearches_def call_all_sqlite limit_ok_min)

lemma clearHotSearches_sqlite:
  "clearHotSearches cfg sqlite password tb =
     (if password \<noteq> correctPassword cfg
      then (\<lparr>success = False, message = msg_wrong_password\<rparr>, tb)
      else (\<lparr>success = True, message = msg_cleared\<rparr>, tb\<lparr>rows := []\<rparr>))"
  by (simp add: clearHotSearches_def call_run_sqlite)

lemma deleteHotSearch_sqlite:
  "deleteHotSearch cfg sqlite term password tb =
     (if password \<noteq> correctPassword cfg
      then (\<lparr>success = False, message = msg_wrong_password\<rparr>, tb)
      else if length (rows (sql_delete_term (bind_text term) tb)) < length (rows tb)
           then (\<lparr>success = True, message = msg_deleted term\<rparr>,
                 sql_delete_term (bind_text term) tb)
           else (\<lparr>success = False, message = msg_not_found\<rparr>,
                 sql_delete_term (bind_text term) tb))"
  by (simp add: deleteHotSearch_def call_run_sqlite removed_def)

lemma getStats_sqlite:
  "getStats sqlite tb =
     \<lparr>total = int (length (rows tb)),
      topTerms = map to_item (take 10 (order_by_rank (rows tb)))\<rparr>"
  by (simp add: getStats_def call_get_sqlite call_all_sqlite row_total_def sql_limit_def)

lemma exec_op_fallback: "exec_op cfg memory_fallback op d = d"
  by (cases op)
    (simp_all add: recordSearch_def deleteHotSearch_def clearHotSearches_def call_run_fallback)

lemma run_ops_fallback: "run_ops cfg memory_fallback ops d = d"
  by (induction ops) (simp_all add: run_ops_def exec_op_fallback)

lemma run_ops_snoc: "run_ops cfg db (ops @ [op]) s = exec_op cfg db op (run_ops cfg db ops s)"
  by (simp add: run_ops_def)

text \<open>Every call on the SQLite handle leaves the table alone or runs one of three updates.\<close>

lemma exec_op_cases:
  "exec_op cfg sqlite op tb = tb
   \<or> (\<exists>t now. op = Record t now \<and> accepted t
         \<and> exec_op cfg sqlite op tb
             = sql_cleanup MAX_ENTRIES (sql_upsert (bind_text t) now now now tb))
   \<or> (\<exists>t p. op = Delete t p \<and> exec_op cfg sqlite op tb = sql_delete_term (bind_text t) tb)
   \<or> (\<exists>p. op = ClearAll p \<and> exec_op cfg sqlite op tb = tb\<lparr>rows := []\<rparr>)"
  by (cases op)
    (auto simp add: recordSearch_sqlite deleteHotSearch_sqlite clearHotSearches_sqlite
       accepted_def)

section \<open>The table under the statements\<close>

lemma rank_key_le: "rank_key a \<le> rank_key b \<longleftrightarrow> outranks_or_ties a b"
  by (auto simp add: rank_key_def outranks_or_ties_def)

lemma fold_max_ge: "(a::nat) \<le> fold max xs a \<and> (\<forall>x\<in>set xs. x \<le> fold max xs a)"
proof (induction xs arbitrary: a)
  case Nil
  then show ?case by simp
next
  case (Cons x xs)
  have "max x a \<le> fold max xs (max x a)" using Cons.IH by blast
  moreover have "\<forall>y\<in>set xs. y \<le> fold max xs (max x a)" using Cons.IH by blast
  ultimately show ?case by auto
qed

lemma next_id_fresh: "\<forall>r\<in>set (rows tb). row_id r < next_id tb"
  using fold_max_ge [of "sqlite_sequence tb" "map row_id (rows tb)"]
  by (auto simp add: next_id_def less_Suc_eq_le)

lemma list_ex_term: "list_ex (\<lambda>r. row_term r = t) rs \<longleftrightarrow> t \<in> row_term ` set rs"
  by (auto simp add: list_ex_iff)

lemma row_id_update:
  "row_id \<circ> (\<lambda>r. if row_term r = t
        then r\<lparr>row_score := row_score r + 1, last_searched := n\<rparr> else r) = row_id"
  by (auto simp add: fun_eq_iff)

lemma row_term_update:
  "row_term \<circ> (\<lambda>r. if row_term r = t
        then r\<lparr>row_score := row_score r + 1, last_searched := n\<rparr> else r) = row_term"
  by (auto simp add: fun_eq_iff)

lemma upsert_distinct_ids:
  "distinct (map row_id (rows tb)) \<Longrightarrow> distinct (map row_id (rows (sql_upsert t a b c tb)))"
  using next_id_fresh [of tb]
  by (auto simp add: sql_upsert_def row_id_update)

lemma upsert_distinct_terms:
  "distinct (map row_term (rows tb)) \<Longrightarrow> distinct (map row_term (rows (sql_upsert t a b c tb)))"
  by (auto simp add: sql_upsert_def row_term_update list_ex_term)

lemma cleanup_distinct:
  "distinct (map f (rows tb)) \<Longrightarrow> distinct (map f (rows (sql_cleanup n tb)))"
  by (simp add: sql_cleanup_def distinct_map_filter)

lemma delete_term_distinct:
  "distinct (map f (rows tb)) \<Longrightarrow> distinct (map f (rows (sql_delete_term t tb)))"
  by (simp add: sql_delete_term_def distinct_map_filter)

lemma limit_subset: "set (sql_limit n (order_by_rank rs)) \<subseteq> set rs"
  using set_take_subset [of "nat n" "sort_key rank_key rs"]
  by (auto simp add: sql_limit_def order_by_rank_def)

lemma cleanup_subset: "set (rows (sql_cleanup n tb)) \<subseteq> set (rows tb)"
  by (auto simp add: sql_cleanup_def)

lemma delete_subset: "set (rows (sql_delete_term u tb)) \<subseteq> set (rows tb)"
  by (auto simp add: sql_delete_term_def)

text \<open>
  With ids that are a key, \<open>id NOT IN (SELECT id ...)\<close> deletes exactly the rows the
  subquery does not return.
\<close>

lemma cleanup_rows:
  assumes "distinct (map row_id (rows tb))"
  shows "rows (sql_cleanup n tb)
         = filter (\<lambda>r. r \<in> set (sql_limit n (order_by_rank (rows tb)))) (rows tb)"
proof -
  let ?top = "sql_limit n (order_by_rank (rows tb))"
  have inj: "inj_on row_id (set (rows tb))" using assms by (simp add: distinct_map)
  have "filter (\<lambda>r. row_id r \<in> row_id ` set ?top) (rows tb)
        = filter (\<lambda>r. r \<in> set ?top) (rows tb)"
  proof (rule filter_cong [OF refl])
    fix r assume "r \<in> set (rows tb)"
    then show "(row_id r \<in> row_id ` set ?top) = (r \<in> set ?top)"
      using limit_subset [of n "rows tb"] inj by (auto dest: inj_onD)
  qed
  then show ?thesis by (simp add: sql_cleanup_def)
qed

lemma cleanup_set:
  assumes "distinct (map row_id (rows tb))"
  shows "set (rows (sql_cleanup n tb)) = set (sql_limit n (order_by_rank (rows tb)))"
  using limit_subset [of n "rows tb"] by (auto simp add: cleanup_rows [OF assms])

lemma cleanup_length:
  assumes "distinct (map row_id (rows tb))"
  shows "length (rows (sql_cleanup n tb)) = length (sql_limit n (order_by_rank (rows tb)))"
proof -
  have d: "distinct (rows tb)" using assms by (simp add: distinct_map)
  have d1: "distinct (rows (sql_cleanup n tb))" using d by (simp add: sql_cleanup_def)
  have d2: "distinct (sql_limit n (order_by_rank (rows tb)))"
    using d by (simp add: sql_limit_def order_by_rank_def)
  have "card (set (rows (sql_cleanup n tb))) = card (set (sql_limit n (order_by_rank (rows tb))))"
    by (simp add: cleanup_set [OF assms])
  then show ?thesis using d1 d2 by (simp add: distinct_card)
qed

lemma cleanup_bound:
  assumes "distinct (map row_id (rows tb))"
  shows "length (rows (sql_cleanup MAX_ENTRIES tb)) = min 50 (length (rows tb))"
  by (simp add: cleanup_length [OF assms] sql_limit_def MAX_ENTRIES_def order_by_rank_def)

lemma cleanup_ranked:
  assumes "distinct (map row_id (rows tb))" and "0 \<le> n"
    and k: "k \<in> set (rows (sql_cleanup n tb))"
    and e: "e \<in> set (rows tb)" "e \<notin> set (rows (sql_cleanup n tb))"
  shows "outranks_or_ties k e"
proof -
  let ?s = "order_by_rank (rows tb)"
  have srt: "sorted (map rank_key (take (nat n) ?s @ drop (nat n) ?s))"
    by (simp add: order_by_rank_def)
  have kk: "k \<in> set (take (nat n) ?s)"
    using k assms(2) by (simp add: cleanup_set [OF assms(1)] sql_limit_def)
  have "e \<in> set (take (nat n) ?s @ drop (nat n) ?s)"
    using e(1) by (simp add: order_by_rank_def)
  moreover have "e \<notin> set (take (nat n) ?s)"
    using e(2) assms(2) by (simp add: cleanup_set [OF assms(1)] sql_limit_def)
  ultimately have ee: "e \<in> set (drop (nat n) ?s)" by (simp del: append_take_drop_id)
  have "rank_key k \<le> rank_key e"
    using srt kk ee unfolding map_append sorted_append by auto
  then show ?thesis by (simp add: rank_key_le)
qed

subsection \<open>The text a term is bound as\<close>

lemma bind_text_units: "list_all2 (\<lambda>c c'. c' = c \<or> c' = 65533) u (bind_text u)"
  by (induction u rule: bind_text.induct) auto

lemma bind_text_fixed: "65533 \<notin> set (bind_text u) \<Longrightarrow> bind_text u = u"
  by (induction u rule: bind_text.induct) (auto split: if_splits)

lemma bind_text_same:
  assumes "65533 \<notin> set (bind_text t)"
  shows "bind_text u = bind_text t \<longleftrightarrow> u = t"
proof
  assume e: "bind_text u = bind_text t"
  then have "65533 \<notin> set (bind_text u)" using assms by simp
  then have "bind_text u = u" by (rule bind_text_fixed)
  moreover have "bind_text t = t" using assms by (rule bind_text_fixed)
  ultimately show "u = t" using e by metis
qed simp

lemma matches_at_units:
  assumes "\<forall>q\<in>set p. canonicalize q \<noteq> 65533"
  shows "list_all2 (\<lambda>c c'. c' = c \<or> c' = 65533) s s' \<Longrightarrow> matches_at p s' \<Longrightarrow> matches_at p s"
  using assms
proof (induction p s' arbitrary: s rule: matches_at.induct)
  case (1 s')
  then show ?case by simp
next
  case (2 q ps)
  then show ?case by simp
next
  case (3 q ps c' cs')
  then obtain c cs where s: "s = c # cs" "c' = c \<or> c' = 65533"
    "list_all2 (\<lambda>c c'. c' = c \<or> c' = 65533) cs cs'"
    by (auto simp add: list_all2_Cons2)
  have "canonicalize q = canonicalize c'" "matches_at ps cs'" using 3(3) by simp_all
  moreover have "canonicalize q \<noteq> 65533" using 3(4) by simp
  moreover have "canonicalize 65533 = 65533" by (simp add: canonicalize_def)
  ultimately have "c' = c" using s(2) by auto
  moreover have "matches_at ps cs" using 3(1) [OF s(3) \<open>matches_at ps cs'\<close>] 3(4) by simp
  ultimately show ?case using \<open>canonicalize q = canonicalize c'\<close> s(1) by simp
qed

lemma literal_test_units:
  assumes "\<forall>q\<in>set p. canonicalize q \<noteq> 65533"
  shows "list_all2 (\<lambda>c c'. c' = c \<or> c' = 65533) s s' \<Longrightarrow> literal_test p s' \<Longrightarrow> literal_test p s"
proof (induction s' arbitrary: s)
  case Nil
  then show ?case by simp
next
  case (Cons c' cs')
  then obtain c cs where s: "s = c # cs" "list_all2 (\<lambda>c c'. c' = c \<or> c' = 65533) cs cs'"
    by (auto simp add: list_all2_Cons2)
  from Cons.prems(2) have "matches_at p (c' # cs') \<or> literal_test p cs'" by simp
  then show ?case
  proof
    assume "matches_at p (c' # cs')"
    then have "matches_at p s" using matches_at_units [OF assms Cons.prems(1)] by simp
    then show ?thesis using s(1) by simp
  next
    assume "literal_test p cs'"
    then have "literal_test p cs" using Cons.IH [OF s(2)] by simp
    then show ?thesis using s(1) by simp
  qed
qed

text \<open>Binding a term never turns an accepted term into a forbidden text.\<close>

lemma isForbidden_bind: "isForbidden (bind_text t) \<Longrightarrow> isForbidden t"
proof -
  have u: "literal_test p (bind_text t) \<Longrightarrow> literal_test p t"
    if "\<forall>q\<in>set p. canonicalize q \<noteq> 65533" for p
    using literal_test_units [OF that bind_text_units] .
  assume "isForbidden (bind_text t)"
  then obtain alts p where p: "alts \<in> set forbiddenPatterns" "p \<in> set alts"
    "literal_test p (bind_text t)"
    by (auto simp add: isForbidden_def regex_test_def list_ex_iff)
  then have "\<forall>q\<in>set p. canonicalize q \<noteq> 65533"
    by (auto simp add: forbiddenPatterns_def canonicalize_def)
  then have "literal_test p t" using p(3) by (rule u)
  then show ?thesis using p(1,2)
    by (auto simp add: isForbidden_def regex_test_def list_ex_iff)
qed

lemma upsert_term_set:
  "row_term ` set (rows (sql_upsert k a b c tb)) = insert k (row_term ` set (rows tb))"
proof (cases "k \<in> row_term ` set (rows tb)")
  case True
  have "set (map row_term (rows (sql_upsert k a b c tb))) = set (map row_term (rows tb))"
    using True by (simp add: sql_upsert_def list_ex_term row_term_update)
  then show ?thesis using True by auto
next
  case False
  then show ?thesis by (simp add: sql_upsert_def list_ex_term)
qed

subsection \<open>What every sequence of calls preserves\<close>

lemma exec_op_ok: "table_ok tb \<Longrightarrow> table_ok (exec_op cfg sqlite op tb)"
  using exec_op_cases [of cfg op tb]
  by (auto simp add: table_ok_def cleanup_distinct upsert_distinct_ids upsert_distinct_terms
      delete_term_distinct)

lemma run_ops_ok: "table_ok tb \<Longrightarrow> table_ok (run_ops cfg sqlite ops tb)"
  by (induction ops rule: rev_induct) (simp_all add: run_ops_def exec_op_ok)

lemma empty_ok: "table_ok empty_table"
  by (simp add: table_ok_def empty_table_def)

lemma exec_op_bound:
  assumes "table_ok tb" and "length (rows tb) \<le> 50"
  shows "length (rows (exec_op cfg sqlite op tb)) \<le> 50"
proof -
  have up: "\<And>t now. distinct (map row_id (rows (sql_upsert t now now now tb)))"
    using assms(1) by (simp add: table_ok_def upsert_distinct_ids)
  have del: "\<And>t. length (rows (sql_delete_term t tb)) \<le> 50"
    using assms(2) by (simp add: sql_delete_term_def le_trans [OF length_filter_le])
  show ?thesis
    using exec_op_cases [of cfg op tb] assms(2) del
    by (auto simp add: cleanup_bound [OF up])
qed

lemma run_ops_bound:
  "table_ok tb \<Longrightarrow> length (rows tb) \<le> 50 \<Longrightarrow> length (rows (run_ops cfg sqlite ops tb)) \<le> 50"
  by (induction ops rule: rev_induct)
    (simp_all add: run_ops_def exec_op_bound run_ops_ok [unfolded run_ops_def])

lemma reachable_bound: "length (rows (run_ops cfg sqlite ops empty_table)) \<le> 50"
  by (rule run_ops_bound [OF empty_ok]) (simp add: empty_table_def)

lemma exec_op_terms:
  assumes "\<forall>r\<in>set (rows tb). \<not> isForbidden (row_term r)"
  shows "\<forall>r\<in>set (rows (exec_op cfg sqlite op tb)). \<not> isForbidden (row_term r)"
proof -
  have up: "\<And>t now. accepted t \<Longrightarrow>
      \<forall>r\<in>set (rows (sql_upsert (bind_text t) now now now tb)). \<not> isForbidden (row_term r)"
  proof
    fix t now r
    assume t: "accepted t" and "r \<in> set (rows (sql_upsert (bind_text t) now now now tb))"
    then have "row_term r \<in> insert (bind_text t) (row_term ` set (rows tb))"
      using upsert_term_set [of "bind_text t" now now now tb] by blast
    moreover have "\<not> isForbidden (bind_text t)"
      using t isForbidden_bind [of t] by (auto simp add: accepted_def)
    ultimately show "\<not> isForbidden (row_term r)" using assms by auto
  qed
  consider (same) "exec_op cfg sqlite op tb = tb"
    | (rec) t now where "accepted t"
        "exec_op cfg sqlite op tb
           = sql_cleanup MAX_ENTRIES (sql_upsert (bind_text t) now now now tb)"
    | (del) t where "exec_op cfg sqlite op tb = sql_delete_term (bind_text t) tb"
    | (clr) "exec_op cfg sqlite op tb = tb\<lparr>rows := []\<rparr>"
    using exec_op_cases [of cfg op tb] by blast
  then show ?thesis
  proof cases
    case same
    then show ?thesis using assms by simp
  next
    case rec
    then show ?thesis
      using up [of t now]
        cleanup_subset [of MAX_ENTRIES "sql_upsert (bind_text t) now now now tb"] by auto
  next
    case del
    then show ?thesis using assms delete_subset [of "bind_text t" tb] by auto
  next
    case clr
    then show ?thesis by simp
  qed
qed

lemma run_ops_terms:
  "\<forall>r\<in>set (rows (run_ops cfg sqlite ops empty_table)). \<not> isForbidden (row_term r)"
proof (induction ops rule: rev_induct)
  case Nil
  then show ?case by (simp add: run_ops_def empty_table_def)
next
  case (snoc op ops)
  then show ?case unfolding run_ops_snoc by (rule exec_op_terms)
qed

subsection \<open>The ranking\<close>

lemma order_by_rank_sorted: "sorted_wrt outranks_or_ties (order_by_rank rs)"
proof -
  have "sorted (map rank_key (order_by_rank rs))" by (simp add: order_by_rank_def)
  then show ?thesis by (simp add: sorted_map rank_key_le)
qed

lemma limit_sorted: "sorted_wrt outranks_or_ties (sql_limit n (order_by_rank rs))"
  using order_by_rank_sorted [of rs] by (simp add: sql_limit_def sorted_wrt_take)

lemma item_rank: "item_outranks_or_ties (to_item a) (to_item b) \<longleftrightarrow> outranks_or_ties a b"
  by (simp add: item_outranks_or_ties_def outranks_or_ties_def to_item_def)

lemma items_sorted:
  "sorted_wrt outranks_or_ties rs \<Longrightarrow> sorted_wrt item_outranks_or_ties (map to_item rs)"
  by (simp add: sorted_wrt_map item_rank)

lemma order_by_rank_stable:
  "filter (\<lambda>r. row_score r = sc \<and> last_searched r = ls) (order_by_rank rs)
   = filter (\<lambda>r. row_score r = sc \<and> last_searched r = ls) rs"
proof -
  have "filter (\<lambda>r. rank_key r = (- sc, - ls)) (sort_key rank_key rs)
        = filter (\<lambda>r. rank_key r = (- sc, - ls)) rs"
    by (rule sort_key_stable)
  then show ?thesis by (simp add: order_by_rank_def rank_key_def)
qed

subsection \<open>The row of one term along a sequence of calls\<close>

lemma find_unique:
  "distinct (map f xs) \<Longrightarrow> find (\<lambda>r. f r = t) xs = Some r \<longleftrightarrow> r \<in> set xs \<and> f r = t"
  by (induction xs) auto

lemma lookup_Some:
  "distinct (map row_term (rows tb)) \<Longrightarrow>
     lookup_term t tb = Some r \<longleftrightarrow> r \<in> set (rows tb) \<and> row_term r = t"
  by (simp add: lookup_term_def find_unique)

lemma lookup_None: "lookup_term t tb = None \<longleftrightarrow> t \<notin> row_term ` set (rows tb)"
  by (auto simp add: lookup_term_def find_None_iff)

lemma upsert_other:
  "u \<noteq> t \<Longrightarrow> r \<in> set (rows (sql_upsert u a b c tb)) \<Longrightarrow> row_term r = t \<Longrightarrow> r \<in> set (rows tb)"
  by (auto simp add: sql_upsert_def split: if_splits)

lemma upsert_same:
  assumes "r \<in> set (rows (sql_upsert t a b c tb))" and "row_term r = t"
  shows "(t \<notin> row_term ` set (rows tb) \<and> row_score r = 1 \<and> last_searched r = a
            \<and> created_at r = b)
     \<or> (\<exists>r0\<in>set (rows tb). row_term r0 = t
           \<and> r = r0\<lparr>row_score := row_score r0 + 1, last_searched := c\<rparr>)"
proof (cases "t \<in> row_term ` set (rows tb)")
  case True
  then have "r \<in> (\<lambda>r. if row_term r = t
                then r\<lparr>row_score := row_score r + 1, last_searched := c\<rparr> else r) ` set (rows tb)"
    using assms(1) by (simp add: sql_upsert_def list_ex_term)
  then obtain r0 where "r0 \<in> set (rows tb)"
    "r = (if row_term r0 = t then r0\<lparr>row_score := row_score r0 + 1, last_searched := c\<rparr> else r0)"
    by blast
  then show ?thesis using assms(2) by (cases "row_term r0 = t") auto
next
  case False
  then have "r \<in> set (rows tb) \<or> r = \<lparr>row_id = next_id tb, row_term = t, row_score = 1,
                    last_searched = a, created_at = b\<rparr>"
    using assms(1) by (auto simp add: sql_upsert_def list_ex_term)
  then show ?thesis
  proof
    assume "r \<in> set (rows tb)"
    then show ?thesis using False assms(2) by auto
  next
    assume "r = \<lparr>row_id = next_id tb, row_term = t, row_score = 1,
                    last_searched = a, created_at = b\<rparr>"
    then show ?thesis using False by simp
  qed
qed

text \<open>The upsert creates the row of its term, and removes the row of no term.\<close>

lemma upsert_present: "lookup_term k (sql_upsert k a b c tb) \<noteq> None"
  by (simp add: lookup_None upsert_term_set)

lemma upsert_keeps:
  "lookup_term k tb \<noteq> None \<Longrightarrow> lookup_term k (sql_upsert k' a b c tb) \<noteq> None"
  by (simp add: lookup_None upsert_term_set)

lemma upserted_keeps:
  "lookup_term k tb \<noteq> None \<Longrightarrow> lookup_term k (upserted u now tb) \<noteq> None"
  using upsert_keeps [of k tb "bind_text u" now now now] by (simp add: upserted_def)

lemma recordings_single:
  "recordings t [op] = [] \<or>
   (\<exists>u now. op = Record u now \<and> accepted u \<and> bind_text u = bind_text t
      \<and> recordings t [op] = [now])"
  by (cases op) auto

lemma recordings_Cons: "recordings t (op # ops) = recordings t [op] @ recordings t ops"
  by (cases op) auto

lemma exec_other:
  assumes "recordings t [op] = []" and "r \<in> set (rows (exec_op cfg sqlite op tb))"
    and "row_term r = bind_text t"
  shows "r \<in> set (rows tb)"
proof (cases op)
  case (Record u now)
  show ?thesis
  proof (cases "accepted u")
    case True
    then have "bind_text u \<noteq> bind_text t" using assms(1) Record by (auto split: if_splits)
    then show ?thesis
      using assms(2,3) Record True
        cleanup_subset [of MAX_ENTRIES "sql_upsert (bind_text u) now now now tb"]
        upsert_other [of "bind_text u" "bind_text t" r now now now tb]
      by (auto simp add: recordSearch_upserted upserted_def)
  next
    case False
    then show ?thesis using assms(2) Record by (simp add: recordSearch_upserted)
  qed
next
  case (Delete u p)
  then show ?thesis
    using assms(2) delete_subset [of "bind_text u" tb]
    by (auto simp add: deleteHotSearch_sqlite split: if_splits)
next
  case (ClearAll p)
  then show ?thesis using assms(2) by (auto simp add: clearHotSearches_sqlite split: if_splits)
qed (use assms(2) in auto)

lemma exec_same:
  assumes "accepted u" and "bind_text u = bind_text t"
    and "r \<in> set (rows (exec_op cfg sqlite (Record u now) tb))" and "row_term r = bind_text t"
  shows "(bind_text t \<notin> row_term ` set (rows tb) \<and> row_score r = 1 \<and> last_searched r = now
            \<and> created_at r = now)
     \<or> (\<exists>r0\<in>set (rows tb). row_term r0 = bind_text t
           \<and> r = r0\<lparr>row_score := row_score r0 + 1, last_searched := now\<rparr>)"
  using assms cleanup_subset [of MAX_ENTRIES "sql_upsert (bind_text t) now now now tb"]
    upsert_same [of r "bind_text t" now now now tb]
  by (auto simp add: recordSearch_upserted upserted_def)

text \<open>
  What \<open>kept\<close> gives for one call: with the row there before the call, or with a
  recording that counts, the row is there after the call. The second case rests on the
  upsert creating the row.
\<close>

lemma kept_step:
  assumes "kept cfg t (op # ops) tb"
  shows "kept cfg t ops (exec_op cfg sqlite op tb)
    \<and> (lookup_term (bind_text t) tb \<noteq> None \<or> recordings t [op] \<noteq> []
         \<longrightarrow> lookup_term (bind_text t) (exec_op cfg sqlite op tb) \<noteq> None)"
proof (cases op)
  case (Record u now)
  have k: "lookup_term (bind_text t) (upserted u now tb) \<noteq> None
         \<longrightarrow> lookup_term (bind_text t) (snd (recordSearch sqlite u now tb)) \<noteq> None"
    and r: "kept cfg t ops (snd (recordSearch sqlite u now tb))"
    using assms Record by simp_all
  have "lookup_term (bind_text t) (upserted u now tb) \<noteq> None"
    if "lookup_term (bind_text t) tb \<noteq> None \<or> recordings t [op] \<noteq> []"
    using that
  proof
    assume "lookup_term (bind_text t) tb \<noteq> None"
    then show ?thesis by (rule upserted_keeps)
  next
    assume "recordings t [op] \<noteq> []"
    then have "accepted u" "bind_text u = bind_text t" using Record by (auto split: if_splits)
    then show ?thesis using upsert_present [of "bind_text t"] by (simp add: upserted_def)
  qed
  then show ?thesis using k r Record by auto
qed (use assms in auto)

lemma score_count_aux:
  shows "table_ok tb \<Longrightarrow> kept cfg t ops tb \<Longrightarrow>
     (case lookup_term (bind_text t) (run_ops cfg sqlite ops tb) of
        None \<Rightarrow> lookup_term (bind_text t) tb = None \<and> recordings t ops = []
      | Some r \<Rightarrow>
          row_score r = score_of (bind_text t) tb + int (length (recordings t ops))
          \<and> (recordings t ops \<noteq> [] \<longrightarrow> last_searched r = last (recordings t ops))
          \<and> (recordings t ops = [] \<longrightarrow> lookup_term (bind_text t) tb = Some r)
          \<and> (lookup_term (bind_text t) tb = None \<longrightarrow> created_at r = hd (recordings t ops))
          \<and> (\<forall>r0. lookup_term (bind_text t) tb = Some r0 \<longrightarrow> created_at r = created_at r0))"
proof (induction ops arbitrary: tb)
  case Nil
  then show ?case by (simp add: run_ops_def score_of_def split: option.splits)
next
  case (Cons op ops)
  let ?k = "bind_text t"
  let ?tb = "exec_op cfg sqlite op tb"
  have ok: "table_ok ?tb" using Cons.prems(1) by (rule exec_op_ok)
  have dt: "distinct (map row_term (rows tb))" "distinct (map row_term (rows ?tb))"
    using Cons.prems(1) ok by (simp_all add: table_ok_def)
  have k: "kept cfg t ops ?tb"
    and keep: "lookup_term ?k tb \<noteq> None \<or> recordings t [op] \<noteq> []
                 \<longrightarrow> lookup_term ?k ?tb \<noteq> None"
    using kept_step [OF Cons.prems(2)] by simp_all
  note IH = Cons.IH [OF ok k]
  have run: "run_ops cfg sqlite (op # ops) tb = run_ops cfg sqlite ops ?tb"
    by (simp add: run_ops_def)
  have step: "(lookup_term ?k ?tb = None \<and> lookup_term ?k tb = None \<and> recordings t [op] = [])
     \<or> (\<exists>r. lookup_term ?k ?tb = Some r
            \<and> row_score r = score_of ?k tb + int (length (recordings t [op]))
            \<and> (recordings t [op] \<noteq> [] \<longrightarrow> last_searched r = last (recordings t [op]))
            \<and> (recordings t [op] = [] \<longrightarrow> lookup_term ?k tb = Some r)
            \<and> (lookup_term ?k tb = None \<longrightarrow> created_at r = hd (recordings t [op]))
            \<and> (\<forall>r0. lookup_term ?k tb = Some r0 \<longrightarrow> created_at r = created_at r0))"
  proof (cases "lookup_term ?k ?tb")
    case None
    then show ?thesis using keep by blast
  next
    case (Some r)
    then have r: "r \<in> set (rows ?tb)" "row_term r = ?k" by (simp_all add: lookup_Some [OF dt(2)])
    show ?thesis
    proof (cases "recordings t [op] = []")
      case True
      then have "r \<in> set (rows tb)" using r by (rule exec_other)
      then have "lookup_term ?k tb = Some r" using r(2) by (simp add: lookup_Some [OF dt(1)])
      then show ?thesis using Some True by (simp add: score_of_def)
    next
      case False
      then obtain u now where op: "op = Record u now" "accepted u" "bind_text u = ?k"
        "recordings t [op] = [now]"
        using recordings_single [of t op] by blast
      from exec_same [OF op(2,3) r(1) [unfolded op(1)] r(2)]
      show ?thesis
      proof
        assume a: "?k \<notin> row_term ` set (rows tb) \<and> row_score r = 1 \<and> last_searched r = now
            \<and> created_at r = now"
        then have "lookup_term ?k tb = None" by (simp add: lookup_None)
        then show ?thesis using a Some op(4) by (simp add: score_of_def)
      next
        assume "\<exists>r0\<in>set (rows tb). row_term r0 = ?k
           \<and> r = r0\<lparr>row_score := row_score r0 + 1, last_searched := now\<rparr>"
        then obtain r0 where r0: "r0 \<in> set (rows tb)" "row_term r0 = ?k"
          "r = r0\<lparr>row_score := row_score r0 + 1, last_searched := now\<rparr>" by blast
        then have "lookup_term ?k tb = Some r0" by (simp add: lookup_Some [OF dt(1)])
        then show ?thesis using r0 Some op(4) by (simp add: score_of_def)
      qed
    qed
  qed
  show ?case
    using IH step unfolding run recordings_Cons [of t op ops]
    by (auto simp add: score_of_def split: option.splits)
qed

text \<open>With room in the table, \<open>cleanupOldEntries\<close> evicts nothing.\<close>

lemma cleanup_room:
  assumes "distinct (map row_id (rows tb))" and "length (rows tb) \<le> 50"
  shows "rows (sql_cleanup MAX_ENTRIES tb) = rows tb"
proof -
  have "sql_limit MAX_ENTRIES (order_by_rank (rows tb)) = order_by_rank (rows tb)"
    using assms(2) by (simp add: sql_limit_def MAX_ENTRIES_def order_by_rank_def)
  then have "rows (sql_cleanup MAX_ENTRIES tb) = filter (\<lambda>r. r \<in> set (rows tb)) (rows tb)"
    by (simp add: cleanup_rows [OF assms(1)] order_by_rank_def)
  then show ?thesis by simp
qed

lemma upsert_length: "length (rows (sql_upsert k a b c tb)) \<le> Suc (length (rows tb))"
  by (simp add: sql_upsert_def)

lemma record_room:
  assumes "table_ok tb" and "accepted t" and "length (rows tb) < 50"
  shows "rows (snd (recordSearch sqlite t now tb)) = rows (upserted t now tb)"
proof -
  let ?up = "sql_upsert (bind_text t) now now now tb"
  have "distinct (map row_id (rows ?up))"
    using assms(1) by (simp add: table_ok_def upsert_distinct_ids)
  moreover have "length (rows ?up) \<le> 50"
    using upsert_length [of "bind_text t" now now now tb] assms(3) by simp
  ultimately have "rows (sql_cleanup MAX_ENTRIES ?up) = rows ?up" by (rule cleanup_room)
  then show ?thesis using assms(2) by (simp add: recordSearch_upserted upserted_def)
qed

section \<open>The claims\<close>

lemma full_table_ids: "distinct (map row_id (rows full_table))"
  by (simp add: full_table_def comp_def)

lemma full_table_over: "50 < length (rows (sql_upsert (bind_text [97]) 5 5 5 full_table))"
  by (simp add: full_table_def sql_upsert_def list_ex_iff is_high_surrogate_def
      is_low_surrogate_def)

lemma not_blank_a: "[97] \<noteq> []" "trim [97] \<noteq> []" "\<not> isForbidden [97]"
  by (simp_all add: eval_defs)

lemma accepted_a: "accepted [97]"
  by (simp add: eval_defs)

lemma example_run:
  "run_ops no_env sqlite example_ops empty_table =
     \<lparr>rows = [\<lparr>row_id = 1, row_term = [97], row_score = 3, last_searched = 9, created_at = 5\<rparr>,
              \<lparr>row_id = 2, row_term = [98], row_score = 1, last_searched = 6, created_at = 6\<rparr>],
      sqlite_sequence = 4\<rparr>"
  by (simp add: example_ops_def run_ops_def recordSearch_sqlite deleteHotSearch_sqlite eval_defs)

lemma example_kept: "kept no_env [97] example_ops empty_table"
  by (simp add: example_ops_def lookup_term_def recordSearch_sqlite deleteHotSearch_sqlite
      eval_defs)

text \<open>
  Claim C1 (capacity invariant). Whatever sequence of record, list, delete, clear and
  stats calls runs from the empty store, the store holds at most 50 records when a call
  has returned, on the SQLite handle and on the fallback handle, and the ids of the table
  stay a key. For every table whose ids are a key: when an accepted recording leaves more
  than 50 rows after its upsert, the rows that \<open>recordSearch\<close> leaves are 50, they are
  the first 50 of the upserted table in rank order, and each of them has a higher score
  than every evicted row, or the same score and a \<open>last_searched\<close> at least as late.
\<close>

theorem capacity_invariant:
  "length (rows (run_ops cfg sqlite ops empty_table)) \<le> 50
   \<and> length (memoryStore (run_ops cfg memory_fallback ops empty_memdb)) \<le> 50
   \<and> distinct (map row_id (rows (run_ops cfg sqlite ops empty_table)))
   \<and> (distinct (map row_id (rows tb)) \<and> term \<noteq> [] \<and> trim term \<noteq> [] \<and> \<not> isForbidden term
        \<and> 50 < length (rows (sql_upsert (bind_text term) now now now tb)) \<longrightarrow>
      length (rows (snd (recordSearch sqlite term now tb))) = 50
      \<and> set (rows (snd (recordSearch sqlite term now tb)))
          = set (take 50 (order_by_rank (rows (sql_upsert (bind_text term) now now now tb))))
      \<and> (\<forall>k\<in>set (rows (snd (recordSearch sqlite term now tb))).
           \<forall>e\<in>set (rows (sql_upsert (bind_text term) now now now tb))
                 - set (rows (snd (recordSearch sqlite term now tb))).
             outranks_or_ties k e))"
proof (intro conjI impI)
  show "length (rows (run_ops cfg sqlite ops empty_table)) \<le> 50"
    by (rule reachable_bound)
  show "length (memoryStore (run_ops cfg memory_fallback ops empty_memdb)) \<le> 50"
    by (simp add: run_ops_fallback empty_memdb_def)
  show "distinct (map row_id (rows (run_ops cfg sqlite ops empty_table)))"
    using run_ops_ok [OF empty_ok, of cfg ops] by (simp add: table_ok_def)
next
  assume a: "distinct (map row_id (rows tb)) \<and> term \<noteq> [] \<and> trim term \<noteq> []
    \<and> \<not> isForbidden term \<and> 50 < length (rows (sql_upsert (bind_text term) now now now tb))"
  let ?up = "sql_upsert (bind_text term) now now now tb"
  have d: "distinct (map row_id (rows ?up))" using a by (simp add: upsert_distinct_ids)
  have r: "snd (recordSearch sqlite term now tb) = sql_cleanup 50 ?up"
    using a by (simp add: recordSearch_sqlite MAX_ENTRIES_def)
  show "length (rows (snd (recordSearch sqlite term now tb))) = 50"
    using a cleanup_bound [OF d] by (simp add: r MAX_ENTRIES_def)
  show "set (rows (snd (recordSearch sqlite term now tb)))
        = set (take 50 (order_by_rank (rows ?up)))"
    by (simp add: r cleanup_set [OF d] sql_limit_def)
  show "\<forall>k\<in>set (rows (snd (recordSearch sqlite term now tb))).
           \<forall>e\<in>set (rows ?up) - set (rows (snd (recordSearch sqlite term now tb))).
             outranks_or_ties k e"
    unfolding r using cleanup_ranked [OF d, of 50] by auto
qed

theorem capacity_invariant_witness:
  "distinct (map row_id (rows full_table)) \<and> trim [97] \<noteq> [] \<and> \<not> isForbidden [97]
   \<and> 50 < length (rows (sql_upsert (bind_text [97]) 5 5 5 full_table))
   \<and> length (rows (snd (recordSearch sqlite [97] 5 full_table))) = 50
   \<and> set (rows (snd (recordSearch sqlite [97] 5 full_table)))
       = set (take 50 (order_by_rank (rows (sql_upsert (bind_text [97]) 5 5 5 full_table))))
   \<and> length (rows (run_ops no_env sqlite example_ops empty_table)) \<le> 50"
  using capacity_invariant [of no_env example_ops full_table "[97]" 5]
    full_table_ids full_table_over not_blank_a
  by blast

text \<open>
  Claim C2 (ranking order), as amended. Listing, statistics and eviction use one order:
  descending score, ties broken by descending \<open>last_searched\<close>. The list is a function
  of the stored rows and the limit (empty when SQLite refuses the limit); it and the top
  terms of the statistics are sorted in
  that order, and eviction keeps a prefix of it. The term takes no part in the order:
  rows equal in score and in \<open>last_searched\<close> come out in the order in which the table
  stores them. The counterexample records the same two terms at the same time in either
  order: the list follows the order of recording, not the terms.
\<close>

theorem ranking_order:
  "getHotSearches sqlite limit tb
     = (if limit_ok (case limit of None \<Rightarrow> 30 | Some n \<Rightarrow> n)
        then map to_item
               (sql_limit (min (case limit of None \<Rightarrow> 30 | Some n \<Rightarrow> n) MAX_ENTRIES)
                  (order_by_rank (rows tb)))
        else [])
   \<and> topTerms (getStats sqlite tb) = map to_item (take 10 (order_by_rank (rows tb)))
   \<and> sorted_wrt item_outranks_or_ties (getHotSearches sqlite limit tb)
   \<and> sorted_wrt item_outranks_or_ties (topTerms (getStats sqlite tb))
   \<and> sorted_wrt outranks_or_ties (order_by_rank rs)
   \<and> filter (\<lambda>r. row_score r = sc \<and> last_searched r = ls) (order_by_rank rs)
       = filter (\<lambda>r. row_score r = sc \<and> last_searched r = ls) rs
   \<and> (distinct (map row_id (rows tb)) \<longrightarrow>
        set (rows (sql_cleanup n tb)) = set (sql_limit n (order_by_rank (rows tb))))"
proof (intro conjI impI)
  show "sorted_wrt item_outranks_or_ties (getHotSearches sqlite limit tb)"
    by (simp add: getHotSearches_sqlite items_sorted limit_sorted)
  have "sorted_wrt outranks_or_ties (take 10 (order_by_rank (rows tb)))"
    using order_by_rank_sorted [of "rows tb"] by (simp add: sorted_wrt_take)
  then show "sorted_wrt item_outranks_or_ties (topTerms (getStats sqlite tb))"
    by (simp add: getStats_sqlite items_sorted)
qed (simp_all add: getHotSearches_sqlite getStats_sqlite order_by_rank_sorted
      order_by_rank_stable cleanup_set)

theorem ranking_order_witness:
  "distinct (map row_id (rows tied_table))
   \<and> set (rows (sql_cleanup 2 tied_table)) = set (sql_limit 2 (order_by_rank (rows tied_table)))
   \<and> getHotSearches sqlite (Some 10) tied_table
       = [\<lparr>item_term = [99], item_score = 2, lastSearched = 3, createdAt = 3\<rparr>,
          \<lparr>item_term = [98], item_score = 1, lastSearched = 5, createdAt = 5\<rparr>,
          \<lparr>item_term = [97], item_score = 1, lastSearched = 5, createdAt = 5\<rparr>]"
proof -
  have d: "distinct (map row_id (rows tied_table))" by (simp add: tied_table_def)
  have l: "(if limit_ok (case Some 10 of None \<Rightarrow> 30 | Some n \<Rightarrow> n)
        then map to_item
               (sql_limit (min (case Some 10 of None \<Rightarrow> 30 | Some n \<Rightarrow> n) MAX_ENTRIES)
                  (order_by_rank (rows tied_table)))
        else [])
       = [\<lparr>item_term = [99], item_score = 2, lastSearched = 3, createdAt = 3\<rparr>,
          \<lparr>item_term = [98], item_score = 1, lastSearched = 5, createdAt = 5\<rparr>,
          \<lparr>item_term = [97], item_score = 1, lastSearched = 5, createdAt = 5\<rparr>]"
    by (simp add: tied_table_def eval_defs)
  from ranking_order [of "Some 10" tied_table "rows tied_table" 1 5 2] d l
  show ?thesis by simp
qed

theorem ranking_order_counterexample:
  "getHotSearches sqlite (Some 10)
     (run_ops no_env sqlite [Record [97] 5, Record [98] 5] empty_table)
     = [\<lparr>item_term = [97], item_score = 1, lastSearched = 5, createdAt = 5\<rparr>,
        \<lparr>item_term = [98], item_score = 1, lastSearched = 5, createdAt = 5\<rparr>]
   \<and> getHotSearches sqlite (Some 10)
     (run_ops no_env sqlite [Record [98] 5, Record [97] 5] empty_table)
     = [\<lparr>item_term = [98], item_score = 1, lastSearched = 5, createdAt = 5\<rparr>,
        \<lparr>item_term = [97], item_score = 1, lastSearched = 5, createdAt = 5\<rparr>]"
  by (simp add: run_ops_def recordSearch_sqlite getHotSearches_sqlite eval_defs)

text \<open>
  Claim C3 (parity of the two handles) fails on the code. After one recording of a
  two-ideograph term the SQLite handle lists the term with score 1 and deletes it on
  request; the fallback handle lists nothing, keeps its map empty and answers the same
  delete with the message of a failed deletion.
\<close>

theorem fallback_diverges:
  "getHotSearches sqlite (Some 10) (snd (recordSearch sqlite [30005, 24433] 1000 empty_table))
     = [\<lparr>item_term = [30005, 24433], item_score = 1, lastSearched = 1000, createdAt = 1000\<rparr>]
   \<and> getHotSearches memory_fallback (Some 10)
        (snd (recordSearch memory_fallback [30005, 24433] 1000 empty_memdb)) = []
   \<and> snd (recordSearch memory_fallback [30005, 24433] 1000 empty_memdb) = empty_memdb
   \<and> fst (deleteHotSearch no_env sqlite [30005, 24433] (correctPassword no_env)
            (snd (recordSearch sqlite [30005, 24433] 1000 empty_table)))
       = \<lparr>success = True, message = msg_deleted [30005, 24433]\<rparr>
   \<and> fst (deleteHotSearch no_env memory_fallback [30005, 24433] (correctPassword no_env)
            (snd (recordSearch memory_fallback [30005, 24433] 1000 empty_memdb)))
       = \<lparr>success = False, message = msg_delete_failed\<rparr>"
proof -
  have a: "getHotSearches sqlite (Some 10)
      (snd (recordSearch sqlite [30005, 24433] 1000 empty_table))
     = [\<lparr>item_term = [30005, 24433], item_score = 1, lastSearched = 1000, createdAt = 1000\<rparr>]"
    by (simp add: recordSearch_sqlite getHotSearches_sqlite eval_defs)
  have b: "getHotSearches memory_fallback (Some 10) d = []" for d
    by (simp add: getHotSearches_def call_all_fallback)
  have c: "snd (recordSearch memory_fallback [30005, 24433] 1000 empty_memdb) = empty_memdb"
    by (simp add: recordSearch_def call_run_fallback)
  have d: "fst (deleteHotSearch no_env sqlite [30005, 24433] (correctPassword no_env)
            (snd (recordSearch sqlite [30005, 24433] 1000 empty_table)))
       = \<lparr>success = True, message = msg_deleted [30005, 24433]\<rparr>"
    by (simp add: recordSearch_sqlite deleteHotSearch_sqlite eval_defs)
  have e: "fst (deleteHotSearch no_env memory_fallback [30005, 24433] (correctPassword no_env) m)
       = \<lparr>success = False, message = msg_delete_failed\<rparr>" for m
    by (simp add: deleteHotSearch_def call_run_fallback)
  show ?thesis using a b c d e by blast
qed

text \<open>
  Claim C4 (score counting), as amended, on the SQLite handle. The table knows a term by
  the text it is bound as, so the recordings that count for a term are the accepted
  recordings of every term bound as the same text. Take a table that meets the
  constraints of the schema and a sequence of calls with at least one such recording and
  with no delete, clear or eviction of the row. Afterwards the row has the score it had
  before (0 when there was no row) plus the number of these recordings, and its
  \<open>last_searched\<close> is the time of the last of them; when there was no row the score is
  their number and \<open>created_at\<close> is the time of the first. The upsert itself creates the
  row: in a table with fewer than 50 rows a recording of an accepted term is never
  evicted and leaves the row with one more than the earlier score. A term whose bound
  text has no U+FFFD is bound as itself and shares its row with no other term. The
  counterexample records two different lone surrogates once each: both are bound as
  U+FFFD and the table holds one row of score 2.
\<close>

theorem score_counting:
  "(table_ok tb \<and> kept cfg t ops tb \<and> recordings t ops \<noteq> [] \<longrightarrow>
      (\<exists>r. lookup_term (bind_text t) (run_ops cfg sqlite ops tb) = Some r
           \<and> row_score r = score_of (bind_text t) tb + int (length (recordings t ops))
           \<and> last_searched r = last (recordings t ops)
           \<and> (lookup_term (bind_text t) tb = None \<longrightarrow>
                 row_score r = int (length (recordings t ops))
                 \<and> created_at r = hd (recordings t ops))))
   \<and> (table_ok tb \<and> accepted t \<and> length (rows tb) < 50 \<longrightarrow>
        kept cfg t [Record t now] tb
        \<and> (\<exists>r. lookup_term (bind_text t) (snd (recordSearch sqlite t now tb)) = Some r
               \<and> row_score r = score_of (bind_text t) tb + 1
               \<and> last_searched r = now))
   \<and> (65533 \<notin> set (bind_text t) \<longrightarrow>
        bind_text t = t \<and> (bind_text u = bind_text t \<longleftrightarrow> u = t))"
proof (intro conjI impI)
  assume a: "table_ok tb \<and> kept cfg t ops tb \<and> recordings t ops \<noteq> []"
  then have ok: "table_ok tb" and k: "kept cfg t ops tb" and n: "recordings t ops \<noteq> []"
    by simp_all
  show "\<exists>r. lookup_term (bind_text t) (run_ops cfg sqlite ops tb) = Some r
           \<and> row_score r = score_of (bind_text t) tb + int (length (recordings t ops))
           \<and> last_searched r = last (recordings t ops)
           \<and> (lookup_term (bind_text t) tb = None \<longrightarrow>
                 row_score r = int (length (recordings t ops))
                 \<and> created_at r = hd (recordings t ops))"
    using score_count_aux [OF ok k] n
    by (cases "lookup_term (bind_text t) (run_ops cfg sqlite ops tb)")
      (auto simp add: score_of_def)
next
  assume a: "table_ok tb \<and> accepted t \<and> length (rows tb) < 50"
  then have ok: "table_ok tb" and acc: "accepted t" and room: "length (rows tb) < 50"
    by simp_all
  have same: "lookup_term (bind_text t) (snd (recordSearch sqlite t now tb))
        = lookup_term (bind_text t) (upserted t now tb)"
    by (simp add: lookup_term_def record_room [OF ok acc room])
  then show k: "kept cfg t [Record t now] tb" by simp
  have n: "recordings t [Record t now] = [now]" using acc by simp
  have "run_ops cfg sqlite [Record t now] tb = snd (recordSearch sqlite t now tb)"
    by (simp add: run_ops_def)
  then show "\<exists>r. lookup_term (bind_text t) (snd (recordSearch sqlite t now tb)) = Some r
               \<and> row_score r = score_of (bind_text t) tb + 1
               \<and> last_searched r = now"
    using score_count_aux [OF ok k] n
    by (cases "lookup_term (bind_text t) (snd (recordSearch sqlite t now tb))")
      (auto simp add: score_of_def)
next
  assume "65533 \<notin> set (bind_text t)"
  then show "bind_text t = t" by (rule bind_text_fixed)
next
  assume "65533 \<notin> set (bind_text t)"
  then show "bind_text u = bind_text t \<longleftrightarrow> u = t" by (rule bind_text_same)
qed

theorem score_counting_witness:
  "table_ok empty_table \<and> kept no_env [97] example_ops empty_table
   \<and> recordings [97] example_ops = [5, 7, 9]
   \<and> lookup_term (bind_text [97]) (run_ops no_env sqlite example_ops empty_table)
       = Some \<lparr>row_id = 1, row_term = [97], row_score = 3, last_searched = 9, created_at = 5\<rparr>
   \<and> table_ok one_row \<and> accepted [98] \<and> length (rows one_row) < 50
   \<and> kept no_env [98] [Record [98] 7] one_row
   \<and> 65533 \<notin> set (bind_text [97]) \<and> bind_text [97] = [97]"
proof -
  have c: "recordings [97] example_ops = [5, 7, 9]" by (simp add: example_ops_def eval_defs)
  then have d: "recordings [97] example_ops \<noteq> []" by simp
  have o: "table_ok one_row" by (simp add: table_ok_def one_row_def)
  have b: "accepted [98]" by (simp add: eval_defs)
  have l: "length (rows one_row) < 50" by (simp add: one_row_def)
  have f: "65533 \<notin> set (bind_text [97])" by (simp add: eval_defs)
  note w1 = score_counting [of empty_table no_env "[97]" example_ops 0 "[97]"]
  note w2 = score_counting [of one_row no_env "[98]" "[]" 7 "[98]"]
  from w1 empty_ok example_kept d
  obtain r where r: "lookup_term (bind_text [97]) (run_ops no_env sqlite example_ops empty_table)
      = Some r"
    "row_score r
       = score_of (bind_text [97]) empty_table + int (length (recordings [97] example_ops))"
    "last_searched r = last (recordings [97] example_ops)"
    by blast
  have "r \<in> set (rows (run_ops no_env sqlite example_ops empty_table))"
    using r(1) by (auto simp add: lookup_term_def find_Some_iff)
  moreover have "row_score r = 3" "last_searched r = 9"
    using r(2,3) by (simp_all add: c score_of_def lookup_term_def empty_table_def)
  ultimately have "r = \<lparr>row_id = 1, row_term = [97], row_score = 3, last_searched = 9,
      created_at = 5\<rparr>"
    by (auto simp add: example_run)
  moreover have "kept no_env [98] [Record [98] 7] one_row" using w2 o b l by blast
  moreover have "bind_text [97] = [97]" using w1 f by blast
  ultimately show ?thesis using r(1) c empty_ok example_kept o b l f by simp
qed

theorem score_counting_counterexample:
  "accepted [55357] \<and> accepted [55358]
   \<and> kept no_env [55357] [Record [55357] 5, Record [55358] 6] empty_table
   \<and> rows (run_ops no_env sqlite [Record [55357] 5, Record [55358] 6] empty_table)
       = [\<lparr>row_id = 1, row_term = [65533], row_score = 2, last_searched = 6, created_at = 5\<rparr>]"
  by (simp add: run_ops_def recordSearch_sqlite lookup_term_def eval_defs)

text \<open>
  Claim C5 (content filter). On every handle and in every state, recording a forbidden
  term returns normally and leaves the state as it was. So no sequence of calls from the
  empty store brings a forbidden term into the list or into the top terms of the
  statistics; on the fallback handle both are always empty.
\<close>

theorem forbidden_never_listed:
  "(isForbidden term \<longrightarrow> recordSearch db term now s = (Inr (), s))
   \<and> (\<forall>i\<in>set (getHotSearches sqlite limit (run_ops cfg sqlite ops empty_table)).
         \<not> isForbidden (item_term i))
   \<and> (\<forall>i\<in>set (topTerms (getStats sqlite (run_ops cfg sqlite ops empty_table))).
         \<not> isForbidden (item_term i))
   \<and> getHotSearches memory_fallback limit d = []
   \<and> topTerms (getStats memory_fallback d) = []"
proof (intro conjI impI)
  assume "isForbidden term"
  then show "recordSearch db term now s = (Inr (), s)" by (simp add: recordSearch_def)
next
  let ?tb = "run_ops cfg sqlite ops empty_table"
  have t: "\<forall>r\<in>set (rows ?tb). \<not> isForbidden (row_term r)" by (rule run_ops_terms)
  show "\<forall>i\<in>set (getHotSearches sqlite limit ?tb). \<not> isForbidden (item_term i)"
  proof
    fix i assume "i \<in> set (getHotSearches sqlite limit ?tb)"
    then obtain r n where "r \<in> set (sql_limit n (order_by_rank (rows ?tb)))" "i = to_item r"
      by (auto simp add: getHotSearches_sqlite split: if_splits)
    then have "r \<in> set (rows ?tb)" "item_term i = row_term r"
      using limit_subset [of n "rows ?tb"] by (auto simp add: to_item_def)
    then show "\<not> isForbidden (item_term i)" using t by simp
  qed
  have "set (take 10 (order_by_rank (rows ?tb))) \<subseteq> set (rows ?tb)"
    using set_take_subset [of 10 "order_by_rank (rows ?tb)"] by (simp add: order_by_rank_def)
  then show "\<forall>i\<in>set (topTerms (getStats sqlite ?tb)). \<not> isForbidden (item_term i)"
    using t by (auto simp add: getStats_sqlite to_item_def)
next
  show "getHotSearches memory_fallback limit d = []"
    by (simp add: getHotSearches_def call_all_fallback)
  show "topTerms (getStats memory_fallback d) = []"
    by (simp add: getStats_def call_get_fallback)
qed

theorem forbidden_never_listed_witness:
  "isForbidden [83, 72, 105, 116]
   \<and> recordSearch sqlite [83, 72, 105, 116] 5 one_row = (Inr (), one_row)
   \<and> getHotSearches sqlite (Some 10)
        (run_ops no_env sqlite
           [Record [83, 72, 105, 116] 5, Record [97] 6, Record [83, 72, 105, 116] 7] empty_table)
       = [\<lparr>item_term = [97], item_score = 1, lastSearched = 6, createdAt = 6\<rparr>]
   \<and> \<not> isForbidden [97]"
proof -
  have f: "isForbidden [83, 72, 105, 116]" by (simp add: eval_defs)
  have l: "getHotSearches sqlite (Some 10)
        (run_ops no_env sqlite
           [Record [83, 72, 105, 116] 5, Record [97] 6, Record [83, 72, 105, 116] 7] empty_table)
       = [\<lparr>item_term = [97], item_score = 1, lastSearched = 6, createdAt = 6\<rparr>]"
    by (simp add: run_ops_def recordSearch_sqlite getHotSearches_sqlite eval_defs)
  from forbidden_never_listed [of "[83, 72, 105, 116]" sqlite 5 one_row "Some 10" no_env
      "[Record [83, 72, 105, 116] 5, Record [97] 6, Record [83, 72, 105, 116] 7]"]
  show ?thesis using f l by simp
qed

text \<open>
  Claim C6 (clearing), as amended. On the SQLite handle, \<open>clearHotSearches\<close> with the
  correct password empties the table and replies success with one fixed message. The
  reply carries no count: the counterexample clears a table of one row and an empty
  table and gets the same reply.
\<close>

theorem clear_all_reply:
  "password = correctPassword cfg \<longrightarrow>
     clearHotSearches cfg sqlite password tb
       = (\<lparr>success = True, message = msg_cleared\<rparr>, tb\<lparr>rows := []\<rparr>)"
  by (simp add: clearHotSearches_sqlite)

theorem clear_all_reply_witness:
  "[97, 100, 109, 105, 110, 49, 50, 51] = correctPassword no_env
   \<and> clearHotSearches no_env sqlite [97, 100, 109, 105, 110, 49, 50, 51] one_row
       = (\<lparr>success = True, message = msg_cleared\<rparr>, \<lparr>rows = [], sqlite_sequence = 1\<rparr>)"
  using clear_all_reply [of "[97, 100, 109, 105, 110, 49, 50, 51]" no_env one_row]
  by (simp add: correctPassword_def one_row_def no_env_def)

theorem clear_all_count_counterexample:
  "length (rows one_row) = 1 \<and> length (rows empty_table) = 0
   \<and> fst (clearHotSearches no_env sqlite (correctPassword no_env) one_row)
       = fst (clearHotSearches no_env sqlite (correctPassword no_env) empty_table)"
  by (simp add: clearHotSearches_sqlite one_row_def empty_table_def)

text \<open>
  Claim C7 (authorisation of a delete). On every handle and in every state, a delete
  with a password other than the configured one replies failure with the message for a
  wrong password and leaves the state as it was; and no delete with the right password
  ever gives that reply, whatever the handle does, so the caller can tell the two apart.
\<close>

theorem delete_wrong_credential:
  "(password \<noteq> correctPassword cfg \<longrightarrow>
      deleteHotSearch cfg db term password s =
        (\<lparr>success = False, message = msg_wrong_password\<rparr>, s))
   \<and> fst (deleteHotSearch cfg db term' (correctPassword cfg) s') \<noteq>
         \<lparr>success = False, message = msg_wrong_password\<rparr>"
  by (simp add: deleteHotSearch_def msg_wrong_password_def msg_delete_failed_def
      msg_not_found_def split: sum.splits option.splits prod.splits)

theorem delete_wrong_credential_witness:
  "[120] \<noteq> correctPassword no_env
   \<and> deleteHotSearch no_env sqlite [97] [120] one_row
       = (\<lparr>success = False, message = msg_wrong_password\<rparr>, one_row)
   \<and> fst (deleteHotSearch no_env sqlite [97] (correctPassword no_env) one_row)
       \<noteq> \<lparr>success = False, message = msg_wrong_password\<rparr>"
  using delete_wrong_credential [of "[120]" no_env sqlite "[97]" one_row "[97]" one_row]
  by (simp add: correctPassword_def no_env_def)

text \<open>
  Claim C8 (limit of a listing), as amended. On the SQLite handle a limit from 0 on gives
  the first \<open>min limit 50\<close> records in rank order, so at most 50 and none for the limit
  0. A negative limit is not raised to 0: it is passed on to \<open>LIMIT\<close> as it is. Above
  \<open>-2^63\<close> it gives all records of the table, which in a store reached from the empty
  store are at most 50; from \<open>-2^63\<close> down SQLite refuses it and the list is empty.
  The counterexample lists a table of one row with the limit \<open>-1\<close> and gets the row.
\<close>

theorem list_limit:
  "getHotSearches sqlite (Some limit) tb
     = (if limit \<le> - 9223372036854775808 then []
        else map to_item (if limit < 0 then order_by_rank (rows tb)
                          else take (nat (min limit 50)) (order_by_rank (rows tb))))
   \<and> (0 \<le> limit \<longrightarrow> length (getHotSearches sqlite (Some limit) tb) \<le> 50)
   \<and> getHotSearches sqlite (Some 0) tb = []
   \<and> length (getHotSearches sqlite (Some limit) (run_ops cfg sqlite ops empty_table)) \<le> 50"
  using reachable_bound [of cfg ops]
  by (auto simp add: getHotSearches_sqlite sql_limit_def MAX_ENTRIES_def order_by_rank_def
      limit_ok_def)

theorem list_limit_witness:
  "(0::int) \<le> 1 \<and> length (getHotSearches sqlite (Some 1) one_row) \<le> 50
   \<and> getHotSearches sqlite (Some 1) one_row
       = map to_item (take 1 (order_by_rank (rows one_row)))
   \<and> getHotSearches sqlite (Some (- 9223372036854775808)) one_row = []"
  using list_limit [of 1 one_row no_env "[]"]
    list_limit [of "- 9223372036854775808" one_row no_env "[]"]
  by simp

theorem list_limit_counterexample:
  "getHotSearches sqlite (Some (- 1)) one_row
     = [\<lparr>item_term = [97], item_score = 2, lastSearched = 9, createdAt = 5\<rparr>]"
  by (simp add: getHotSearches_sqlite one_row_def eval_defs)

text \<open>
  Claim C9 (blank term), as amended. On every handle and in every state, recording the
  empty string or a string of white space only returns normally, calls no method of the
  handle and leaves the state as it was. No error is signalled: the counterexample
  records a blank string and gets the same result as an accepted recording.
\<close>

theorem record_blank:
  "term = [] \<or> trim term = [] \<longrightarrow> recordSearch db term now s = (Inr (), s)"
  by (auto simp add: recordSearch_def)

theorem record_blank_witness:
  "trim [32, 12288] = []
   \<and> recordSearch sqlite [32, 12288] 1000 one_row = (Inr (), one_row)
   \<and> recordSearch memory_fallback [] 1000 empty_memdb = (Inr (), empty_memdb)"
  using record_blank [of "[32, 12288]" sqlite 1000 one_row]
    record_blank [of "[]" memory_fallback 1000 empty_memdb]
  by (simp add: trim_def is_white_space_def)

theorem record_blank_counterexample:
  "fst (recordSearch sqlite [32, 12288] 1000 empty_table) = Inr ()
   \<and> fst (recordSearch sqlite [32, 12288] 1000 empty_table)
       = fst (recordSearch sqlite [97] 1000 empty_table)"
  by (simp add: recordSearch_sqlite)

text \<open>
  Claim C10 (statistics contain failures). On every handle and in every state: when the
  count query throws, or the query of the top terms throws, \<open>getStats\<close> returns the
  total 0 and no top terms; when the count query returns no row, the total is 0.
\<close>

theorem getStats_contains_failures:
  "(call_get db COUNT_ALL [] s = Inl e \<longrightarrow> getStats db s = \<lparr>total = 0, topTerms = []\<rparr>)
   \<and> (call_all db SELECT_TOP10 [] s = Inl e \<longrightarrow> getStats db s = \<lparr>total = 0, topTerms = []\<rparr>)
   \<and> (call_get db COUNT_ALL [] s = Inr None \<longrightarrow> total (getStats db s) = 0)"
  by (simp add: getStats_def Let_def split: sum.splits option.splits)

theorem getStats_contains_failures_witness:
  "call_get memory_fallback COUNT_ALL [] empty_memdb = Inl TypeError
   \<and> getStats memory_fallback empty_memdb = \<lparr>total = 0, topTerms = []\<rparr>
   \<and> call_get (\<lambda>q. Inr \<lparr>run = None, get = Some (\<lambda>args s. Inr None),
                           all = Some (\<lambda>args s. Inr [])\<rparr>) COUNT_ALL [] () = Inr None
   \<and> total (getStats (\<lambda>q. Inr \<lparr>run = None, get = Some (\<lambda>args s. Inr None),
                                all = Some (\<lambda>args s. Inr [])\<rparr>) ()) = 0"
  using getStats_contains_failures [of memory_fallback empty_memdb TypeError]
    getStats_contains_failures [of "\<lambda>q. Inr \<lparr>run = None, get = Some (\<lambda>args s. Inr None),
                                all = Some (\<lambda>args s. Inr [])\<rparr>" "()" TypeError]
  by (simp add: call_get_def memory_fallback_def)

end
